theory Spec2Isabelle
  imports Complex_Main
begin

section \<open>Barnes-Hut quadtree of nbody_sim (quadtree.py)\<close>

text \<open>
  A shallow embedding of \<^verbatim>\<open>src/quadtree.py\<close>. Numbers are exact reals: the
  embedding describes the arithmetic the program is written in, not the rounding of
  IEEE doubles and not the sign of a zero. Arrays of shape (2,) are pairs of reals.
  They are values, but for the one array the program shares between two objects: the
  \<^verbatim>\<open>cm\<close> of a node built from a single body is that body's \<^verbatim>\<open>pos\<close> (line 126),
  which \<open>step_forward\<close> below takes into account. Everything that raises or terminates
  the process in the source is a value of \<open>error\<close>, returned as \<open>Inl\<close>.
\<close>

subsection \<open>Data\<close>

type_synonym vec = "real \<times> real"

datatype Quad = NW | NE | SW | SE

datatype error =
    UnreachableQuadrant  \<comment> \<open>the print-and-quit branches\<close>
  | ZeroDivisionError    \<comment> \<open>a division whose divisor is zero\<close>
  | RecursionError       \<comment> \<open>the constructor's recursion exceeding the depth limit\<close>
  | ValueError           \<comment> \<open>\<^verbatim>\<open>max\<close> of an empty sequence\<close>

text \<open>
  \<^verbatim>\<open>Body\<close> lives in body.py, which is not part of the sources; the quadtree reads
  its position \<^verbatim>\<open>pos\<close> and its mass \<^verbatim>\<open>m\<close> and calls \<^verbatim>\<open>update\<close>, which is
  a parameter of \<open>step_forward\<close> below.
\<close>

record Body =
  pos :: vec
  m :: real

text \<open>The fields of \<^verbatim>\<open>Node\<close>, in the order \<^verbatim>\<open>Node.__init__\<close> assigns them.\<close>

datatype Node = Node
  (pos: vec)
  (w: real)
  (h: real)
  (bodies: "Body list")
  (cm: vec)
  (total_mass: real)
  (children: "Node list")

record QuadTree =
  dt :: real
  limit :: real
  eps :: real
  bodies :: "Body list"
  root_node :: Node

subsection \<open>Vectors and library functions\<close>

definition vadd :: "vec \<Rightarrow> vec \<Rightarrow> vec" where
  "vadd a b = (fst a + fst b, snd a + snd b)"

definition vsub :: "vec \<Rightarrow> vec \<Rightarrow> vec" where
  "vsub a b = (fst a - fst b, snd a - snd b)"

definition smul :: "real \<Rightarrow> vec \<Rightarrow> vec" where
  "smul c a = (c * fst a, c * snd a)"

definition zeros :: vec where
  "zeros = (0, 0)"

text \<open>
  Modelled from the spec: \<^verbatim>\<open>misc.vector_len\<close> is not part of the sources; the spec
  describes it as the Euclidean norm of a 2-D real vector.
\<close>

definition vector_len :: "vec \<Rightarrow> real" where
  "vector_len v = sqrt (fst v * fst v + snd v * snd v)"

text \<open>
  \<^verbatim>\<open>np.arctan2(y, x)\<close> on exact reals: the angle of the point \<open>(x, y)\<close> in
  \<open>(-\<pi>, \<pi>]\<close>, and \<open>0\<close> at the origin, as numpy returns for \<open>(+0, +0)\<close>. A real
  zero has no sign and a real angle is not rounded, so two results of numpy's function
  have no counterpart here: \<open>-\<pi>\<close>, which it returns for \<open>y = -0.0\<close> with
  \<open>x < 0\<close> or \<open>x = -0.0\<close> and for a negative \<open>y\<close> too small next to a negative
  \<open>x\<close>, and \<open>\<pi>\<close> at \<open>y = +0.0\<close>, \<open>x = -0.0\<close>. What the program does with
  these angles is stated on \<open>quadrant_of_direc\<close>, which takes the angle as it comes.
\<close>

definition arctan2 :: "real \<Rightarrow> real \<Rightarrow> real" where
  "arctan2 y x =
     (if 0 < x then arctan (y / x)
      else if x < 0 then (if 0 \<le> y then arctan (y / x) + pi else arctan (y / x) - pi)
      else if 0 < y then pi / 2
      else if y < 0 then - (pi / 2)
      else 0)"

text \<open>A division: Python raises when the divisor is zero.\<close>

definition fdiv :: "real \<Rightarrow> real \<Rightarrow> error + real" where
  "fdiv a b = (if b = 0 then Inl ZeroDivisionError else Inr (a / b))"

text \<open>Python's \<^verbatim>\<open>sum\<close>: a left fold from 0.\<close>

definition py_sum :: "real list \<Rightarrow> real" where
  "py_sum xs = foldl (+) 0 xs"

definition py_vsum :: "vec list \<Rightarrow> vec" where
  "py_vsum vs = foldl vadd zeros vs"

text \<open>Python's \<^verbatim>\<open>max\<close> of a sequence: it raises on an empty one.\<close>

definition py_max :: "real list \<Rightarrow> error + real" where
  "py_max xs = (case xs of [] \<Rightarrow> Inl ValueError | x # rest \<Rightarrow> Inr (foldl max x rest))"

subsection \<open>Quadrant classification: \<^verbatim>\<open>Node._find_quadrant\<close>\<close>

text \<open>The chain of comparisons on the angle (lines 55 to 65).\<close>

definition quadrant_of_direc :: "real \<Rightarrow> error + Quad" where
  "quadrant_of_direc direc =
     (let pi2 = pi * 0.5 in
      if 0 < direc \<and> direc \<le> pi2 then Inr NE
      else if pi2 < direc \<and> direc \<le> pi then Inr NW
      else if - pi2 < direc \<and> direc \<le> 0 then Inr SW
      else if - pi < direc \<and> direc \<le> - pi2 then Inr SE
      else Inl UnreachableQuadrant)"

definition find_quadrant :: "vec \<Rightarrow> vec \<Rightarrow> error + Quad" where
  "find_quadrant b_pos q_pos =
     (let vec = vsub b_pos q_pos;
          direc = arctan2 (snd vec) (fst vec)
      in quadrant_of_direc direc)"

subsection \<open>Splitting the bodies: \<^verbatim>\<open>Node._split_bodies\<close>\<close>

text \<open>
  The dictionary \<^verbatim>\<open>b_quads\<close> is an association list in insertion order
  (NW, NE, SW, SE), the order in which \<^verbatim>\<open>keys()\<close> is iterated later.
\<close>

type_synonym b_quads = "(Quad \<times> Body list) list"

definition quads_append :: "b_quads \<Rightarrow> Quad \<Rightarrow> Body \<Rightarrow> b_quads" where
  "quads_append bq quad b = map (\<lambda>(k, bs). if k = quad then (k, bs @ [b]) else (k, bs)) bq"

fun split_loop :: "vec \<Rightarrow> Body list \<Rightarrow> b_quads \<Rightarrow> error + b_quads" where
  "split_loop q_pos [] bq = Inr bq"
| "split_loop q_pos (b # bs) bq =
     (case find_quadrant (Body.pos b) q_pos of
        Inl e \<Rightarrow> Inl e
      | Inr quad \<Rightarrow> split_loop q_pos bs (quads_append bq quad b))"

definition split_bodies :: "vec \<Rightarrow> Body list \<Rightarrow> error + b_quads" where
  "split_bodies q_pos bs = split_loop q_pos bs [(NW, []), (NE, []), (SW, []), (SE, [])]"

subsection \<open>Centre of mass: \<^verbatim>\<open>Node._calc_cm\<close>\<close>

definition calc_cm :: "real \<Rightarrow> Body list \<Rightarrow> error + vec" where
  "calc_cm tot bs =
     (let prod = py_vsum (map (\<lambda>b. smul (Body.m b) (Body.pos b)) bs) in
      case fdiv 1 tot of
        Inl e \<Rightarrow> Inl e
      | Inr c \<Rightarrow> Inr (smul c prod))"

subsection \<open>Construction: \<^verbatim>\<open>Node.__init__\<close>, \<^verbatim>\<open>_create_child_nodes\<close>, \<^verbatim>\<open>_create_node\<close>\<close>

text \<open>
  \<open>create_node\<close> places the child of a quadrant; \<open>mk\<close> is the constructor it calls.
  The source's last branch (a quadrant that is none of the four) has no value of type
  \<open>Quad\<close> to reach it.
\<close>

definition create_node ::
  "(vec \<Rightarrow> real \<Rightarrow> real \<Rightarrow> Body list \<Rightarrow> error + Node) \<Rightarrow> vec \<Rightarrow> real \<Rightarrow> real \<Rightarrow>
   Quad \<Rightarrow> Body list \<Rightarrow> error + Node" where
  "create_node mk p wd ht quad bs =
     (let half_w = wd / 2; half_h = ht / 2 in
      case quad of
        NW \<Rightarrow> mk (fst p - half_w, snd p + half_h) half_w half_h bs
      | NE \<Rightarrow> mk (fst p + half_w, snd p + half_h) half_w half_h bs
      | SW \<Rightarrow> mk (fst p - half_w, snd p - half_h) half_w half_h bs
      | SE \<Rightarrow> mk (fst p + half_w, snd p - half_h) half_w half_h bs)"

text \<open>Running the constructions of a loop in order, stopping at the first error.\<close>

fun collect :: "(error + 'a) list \<Rightarrow> error + 'a list" where
  "collect [] = Inr []"
| "collect (r # rs) =
     (case r of
        Inl e \<Rightarrow> Inl e
      | Inr x \<Rightarrow> (case collect rs of Inl e \<Rightarrow> Inl e | Inr xs \<Rightarrow> Inr (x # xs)))"

text \<open>
  The constructor recurses once per level of the tree and Python bounds the depth of
  recursion; the first argument is the number of nested constructions still allowed.
\<close>

fun Node_init :: "nat \<Rightarrow> vec \<Rightarrow> real \<Rightarrow> real \<Rightarrow> Body list \<Rightarrow> error + Node" where
  "Node_init 0 p wd ht bs = Inl RecursionError"
| "Node_init (Suc depth) p wd ht bs =
     (let tot = py_sum (map Body.m bs) in
      if bs = [] then Inr (Node p wd ht bs zeros tot [])
      else if length bs = 1 then Inr (Node p wd ht bs (Body.pos (hd bs)) tot [])
      else
        (case split_bodies p bs of
           Inl e \<Rightarrow> Inl e
         | Inr bq \<Rightarrow>
             (case calc_cm tot bs of
                Inl e \<Rightarrow> Inl e
              | Inr c \<Rightarrow>
                  (case collect (map (\<lambda>(quad, qbs). create_node (Node_init depth) p wd ht quad qbs) bq) of
                     Inl e \<Rightarrow> Inl e
                   | Inr cs \<Rightarrow> Inr (Node p wd ht bs c tot cs)))))"

subsection \<open>\<^verbatim>\<open>QuadTree.__init__\<close>\<close>

definition QuadTree_init ::
  "nat \<Rightarrow> Body list \<Rightarrow> real \<Rightarrow> real \<Rightarrow> real \<Rightarrow> error + QuadTree" where
  "QuadTree_init depth bs dt0 limit0 eps0 =
     (case py_max (map (\<lambda>b. vector_len (Body.pos b)) bs) of
        Inl e \<Rightarrow> Inl e
      | Inr dst \<Rightarrow>
          (case Node_init depth (0, 0) dst dst bs of
             Inl e \<Rightarrow> Inl e
           | Inr r \<Rightarrow> Inr \<lparr>dt = dt0, limit = limit0, eps = eps0, bodies = bs, root_node = r\<rparr>))"

subsection \<open>Force accumulation: \<^verbatim>\<open>QuadTree.step_forward\<close>\<close>

text \<open>
  One pass of the \<^verbatim>\<open>while\<close> loop (lines 165 to 180) for the node just popped. The
  stack is a list whose head is the top: \<^verbatim>\<open>stack.append\<close> of the children in order
  leaves the last child on top. \<open>big_g\<close> is \<^verbatim>\<open>constants.big_g\<close>, which is not part of
  the sources.
\<close>

definition visit ::
  "real \<Rightarrow> real \<Rightarrow> real \<Rightarrow> Body \<Rightarrow> Node \<Rightarrow> Node list \<Rightarrow> vec \<Rightarrow> error + (Node list \<times> vec)" where
  "visit big_g lmt ep body node stack acc =
     (let size = (w node + h node) / 2;
          vec = vsub (cm node) (Body.pos body);
          dist = vector_len vec
      in if dist = 0 then Inr (stack, acc)
         else
           (case fdiv size dist of
              Inl e \<Rightarrow> Inl e
            | Inr ratio \<Rightarrow>
                if ratio < lmt then
                  (let angle = arctan2 (snd vec) (fst vec);
                       denom = (dist * dist + ep * ep) powr (3 / 2)
                   in case fdiv (big_g * total_mass node * dist) denom of
                        Inl e \<Rightarrow> Inl e
                      | Inr mag \<Rightarrow> Inr (stack, vadd acc (smul mag (cos angle, sin angle))))
                else Inr (rev (children node) @ stack, acc)))"

function traverse ::
  "real \<Rightarrow> real \<Rightarrow> real \<Rightarrow> Body \<Rightarrow> Node list \<Rightarrow> vec \<Rightarrow> error + vec" where
  "traverse big_g lmt ep body [] acc = Inr acc"
| "traverse big_g lmt ep body (node # stack) acc =
     (case visit big_g lmt ep body node stack acc of
        Inl e \<Rightarrow> Inl e
      | Inr (stack', acc') \<Rightarrow> traverse big_g lmt ep body stack' acc')"
  by pat_completeness auto
termination
proof (relation "measure (\<lambda>(big_g, lmt, ep, body, stack, acc). size_list size stack)")
  show "wf (measure (\<lambda>(big_g, lmt, ep, body, stack, acc). size_list size stack))"
    by simp
next
  fix big_g lmt ep :: real and body :: Body and node :: Node and stack stack' :: "Node list"
    and acc acc' :: vec and r :: "Node list \<times> vec"
  assume "visit big_g lmt ep body node stack acc = Inr r" and "(stack', acc') = r"
  then have "stack' = stack \<or> stack' = rev (children node) @ stack"
    by (auto simp: visit_def Let_def split: if_splits sum.splits)
  moreover have "size_list size (rev cs) = size_list size cs" for cs :: "Node list"
    by (induction cs) simp_all
  moreover have "size_list size (children node) < size node"
    by (cases node) simp
  ultimately show "((big_g, lmt, ep, body, stack', acc'), (big_g, lmt, ep, body, node # stack, acc))
      \<in> measure (\<lambda>(big_g, lmt, ep, body, stack, acc). size_list size stack)"
    by auto
qed

text \<open>
  The loop over the bodies. \<^verbatim>\<open>Body.update\<close> is not part of the sources: \<open>update\<close>
  receives the acceleration, the time step and the frame count and yields the body's
  next state, and \<open>in_place\<close> says how it stores the new position: written into the
  array \<^verbatim>\<open>pos\<close> already is (\<^verbatim>\<open>self.pos += ...\<close>), or as a new array bound to
  \<^verbatim>\<open>pos\<close> (\<^verbatim>\<open>self.pos = self.pos + ...\<close>). The difference shows in the tree: the
  \<^verbatim>\<open>cm\<close> of a node built from a single body is the array that was that body's
  \<^verbatim>\<open>pos\<close> when the node was built, so it follows the body in the first case and keeps
  the position of construction time in the second. No other array of the tree is shared.

  \<open>relink built current\<close> gives a tree its contents when the bodies it was built from,
  \<open>built\<close>, have become \<open>current\<close> (same bodies, same order) by updates in place;
  \<open>Node.bodies\<close> keeps the bodies as they were when the node was built.
\<close>

fun relink :: "Body list \<Rightarrow> Body list \<Rightarrow> Node \<Rightarrow> Node" where
  "relink built current (Node p wd ht bs c tot cs) =
     Node p wd ht bs
       (case bs of
          [b] \<Rightarrow> (case map_of (zip built current) b of Some b' \<Rightarrow> Body.pos b' | None \<Rightarrow> c)
        | _ \<Rightarrow> c)
       tot (map (relink built current) cs)"

text \<open>What a traversal reads when it starts from \<^verbatim>\<open>self.root\<close>.\<close>

definition tree_seen :: "bool \<Rightarrow> Node \<Rightarrow> Body list \<Rightarrow> Node" where
  "tree_seen in_place r current = (if in_place then relink (Node.bodies r) current r else r)"



subsection \<open>Notions the properties are stated with\<close>

text \<open>All nodes of a tree: the node itself and the nodes of its children's trees.\<close>

fun subnodes :: "Node \<Rightarrow> Node list" where
  "subnodes (Node p wd ht bs c tot cs) = Node p wd ht bs c tot cs # concat (map subnodes cs)"

text \<open>The mass-weighted average of the positions of a list of bodies, as the spec writes it.\<close>

definition mass_weighted_average :: "Body list \<Rightarrow> vec" where
  "mass_weighted_average bs =
     ((\<Sum>b\<leftarrow>bs. Body.m b * fst (Body.pos b)) / (\<Sum>b\<leftarrow>bs. Body.m b),
      (\<Sum>b\<leftarrow>bs. Body.m b * snd (Body.pos b)) / (\<Sum>b\<leftarrow>bs. Body.m b))"


text \<open>The centre \<open>create_node\<close> gives the child of a quadrant.\<close>

definition child_pos :: "vec \<Rightarrow> real \<Rightarrow> real \<Rightarrow> Quad \<Rightarrow> vec" where
  "child_pos p wd ht quad =
     (case quad of
        NW \<Rightarrow> (fst p - wd / 2, snd p + ht / 2)
      | NE \<Rightarrow> (fst p + wd / 2, snd p + ht / 2)
      | SW \<Rightarrow> (fst p - wd / 2, snd p - ht / 2)
      | SE \<Rightarrow> (fst p + wd / 2, snd p - ht / 2))"

subsection \<open>Example inputs\<close>

text \<open>Two bodies above the centre of a node at the origin, and the tree built from them.\<close>

definition ex_ne :: Body where
  "ex_ne = \<lparr>Body.pos = (1, 1), m = 1\<rparr>"

definition ex_nw :: Body where
  "ex_nw = \<lparr>Body.pos = (- 1, 1), m = 3\<rparr>"

definition ex_tree :: Node where
  "ex_tree = Node (0, 0) 2 2 [ex_ne, ex_nw] (- (1 / 2), 1) 4
     [Node (- 1, 1) 1 1 [ex_nw] (- 1, 1) 3 [],
      Node (1, 1) 1 1 [ex_ne] (1, 1) 1 [],
      Node (- 1, - 1) 1 1 [] (0, 0) 0 [],
      Node (1, - 1) 1 1 [] (0, 0) 0 []]"

text \<open>
  A single body on the x axis, and an update that moves a body with unit velocity
  along the x axis whatever the acceleration.
\<close>

definition ex_body :: Body where
  "ex_body = \<lparr>Body.pos = (1, 0), m = 1\<rparr>"

definition ex_moved :: Body where
  "ex_moved = \<lparr>Body.pos = (2, 0), m = 1\<rparr>"


definition ex_qt :: QuadTree where
  "ex_qt = \<lparr>dt = 1, limit = 5, eps = 1000, bodies = [ex_body],
            root_node = Node (0, 0) 1 1 [ex_body] (1, 0) 1 []\<rparr>"


text \<open>
  Two bodies on the x axis and the root \<^verbatim>\<open>QuadTree\<close> builds for them. The body at
  \<open>(1, 0)\<close> has the angle \<open>0\<close> and goes to \<open>SW\<close>, the one at \<open>(-1, 0)\<close> has
  the angle \<open>\<pi>\<close> and goes to \<open>NW\<close>.
\<close>

definition ex_west :: Body where
  "ex_west = \<lparr>Body.pos = (- 1, 0), m = 3\<rparr>"

definition ex_pair_root :: Node where
  "ex_pair_root = Node (0, 0) 1 1 [ex_body, ex_west] (- (1 / 2), 0) 4
     [Node (- (1 / 2), 1 / 2) (1 / 2) (1 / 2) [ex_west] (- 1, 0) 3 [],
      Node (1 / 2, 1 / 2) (1 / 2) (1 / 2) [] (0, 0) 0 [],
      Node (- (1 / 2), - (1 / 2)) (1 / 2) (1 / 2) [ex_body] (1, 0) 1 [],
      Node (1 / 2, - (1 / 2)) (1 / 2) (1 / 2) [] (0, 0) 0 []]"

section \<open>Properties\<close>

subsection \<open>Angles\<close>

lemma arctan2_pos_x:
  "0 < x \<Longrightarrow> - (pi / 2) < arctan2 y x \<and> arctan2 y x < pi / 2 \<and> (0 < arctan2 y x \<longleftrightarrow> 0 < y)"
  using arctan_bounded[of "y / x"] by (simp add: arctan2_def zero_less_divide_iff)

lemma arctan2_neg_x_nonneg:
  assumes "x < 0" and "0 \<le> y"
  shows "pi / 2 < arctan2 y x \<and> arctan2 y x \<le> pi"
proof -
  from assms have "y / x \<le> 0" by (simp add: divide_nonneg_neg)
  then have "arctan (y / x) \<le> 0"
    using arctan_less_zero_iff[of "y / x"] by (metis arctan_zero_zero less_eq_real_def)
  with assms arctan_lbound[of "y / x"] show ?thesis by (simp add: arctan2_def)
qed

lemma arctan2_neg_x_neg:
  assumes "x < 0" and "y < 0"
  shows "- pi < arctan2 y x \<and> arctan2 y x < - (pi / 2)"
proof -
  from assms have "0 < y / x" by (simp add: zero_less_divide_iff)
  then have "0 < arctan (y / x)" by simp
  with assms arctan_ubound[of "y / x"] show ?thesis by (simp add: arctan2_def)
qed

text \<open>
  On exact reals the angle stays in \<open>(-\<pi>, \<pi>]\<close> and the chain of comparisons amounts
  to a test of signs. Note which sides the southern labels get: \<open>SW\<close> is the label of
  the offsets with \<open>x > 0\<close>, \<open>y \<le> 0\<close>, and \<open>SE\<close> of those with \<open>x \<le> 0\<close>, \<open>y < 0\<close>.
\<close>

lemma find_quadrant_signs:
  "find_quadrant b q =
     (let x = fst b - fst q; y = snd b - snd q in
      if 0 < y \<and> 0 \<le> x then Inr NE
      else if x < 0 \<and> 0 \<le> y then Inr NW
      else if y < 0 \<and> x \<le> 0 then Inr SE
      else Inr SW)"
proof -
  define x where "x = fst b - fst q"
  define y where "y = snd b - snd q"
  have dir: "find_quadrant b q = quadrant_of_direc (arctan2 y x)"
    by (simp add: find_quadrant_def vsub_def Let_def x_def y_def)
  consider (px) "0 < x" | (nx1) "x < 0" "0 \<le> y" | (nx2) "x < 0" "y < 0"
    | (zp) "x = 0" "0 < y" | (zn) "x = 0" "y < 0" | (zz) "x = 0" "y = 0"
    by linarith
  then have "quadrant_of_direc (arctan2 y x) =
      (if 0 < y \<and> 0 \<le> x then Inr NE
       else if x < 0 \<and> 0 \<le> y then Inr NW
       else if y < 0 \<and> x \<le> 0 then Inr SE
       else Inr SW)"
  proof cases
    case px
    with arctan2_pos_x[of x y] show ?thesis
      by (auto simp: quadrant_of_direc_def Let_def)
  next
    case nx1
    with arctan2_neg_x_nonneg[of x y] pi_gt_zero show ?thesis
      by (auto simp: quadrant_of_direc_def Let_def)
  next
    case nx2
    with arctan2_neg_x_neg[of x y] pi_gt_zero show ?thesis
      by (auto simp: quadrant_of_direc_def Let_def)
  next
    case zp
    then show ?thesis by (simp add: quadrant_of_direc_def Let_def arctan2_def)
  next
    case zn
    then show ?thesis using pi_gt_zero by (simp add: quadrant_of_direc_def Let_def arctan2_def)
  next
    case zz
    then show ?thesis by (simp add: quadrant_of_direc_def Let_def arctan2_def)
  qed
  with dir show ?thesis by (simp add: Let_def x_def y_def)
qed

text \<open>
  On exact reals, where a zero has no sign, a body at the node's centre has the zero
  offset, the angle \<open>0\<close> and the quadrant \<open>SW\<close>. In the program this is the case
  of an offset \<open>(+0.0, +0.0)\<close>, which two arrays equal bit for bit give.
\<close>

lemma find_quadrant_coincident:
  "vsub p p = zeros \<and> arctan2 (snd (vsub p p)) (fst (vsub p p)) = 0 \<and> find_quadrant p p = Inr SW"
  by (simp add: find_quadrant_def vsub_def zeros_def arctan2_def quadrant_of_direc_def Let_def)

lemma quadrant_of_direc_unreachable_iff:
  "quadrant_of_direc direc = Inl UnreachableQuadrant \<longleftrightarrow> direc \<le> - pi \<or> pi < direc"
  using pi_gt_zero by (auto simp: quadrant_of_direc_def Let_def)

text \<open>
  C3: the claim is that the classification never reaches its last branch for a finite
  nonzero offset. By \<open>find_quadrant_signs\<close> that holds while the angle is in
  \<open>(-\<pi>, \<pi>]\<close>; but the chain leaves the angle \<open>-\<pi>\<close> to the last branch, and
  \<^verbatim>\<open>np.arctan2\<close> returns exactly \<^verbatim>\<open>-np.pi\<close> for an offset with \<^verbatim>\<open>x < 0\<close> and
  \<^verbatim>\<open>y = -0.0\<close> (and for a negative \<^verbatim>\<open>y\<close> too small next to \<^verbatim>\<open>x\<close>).
\<close>

theorem quadrant_of_direc_minus_pi:
  "quadrant_of_direc (- pi) = Inl UnreachableQuadrant"
  by (simp add: quadrant_of_direc_def Let_def)

text \<open>
  C9: the claim is that a body whose position coincides with the node's centre has the
  angle \<open>0\<close> and is classified \<open>SW\<close>, never reaching the last branch. Two positions
  that compare equal can differ in the sign of a zero, and then the offset has a
  negative zero: \<^verbatim>\<open>np.arctan2\<close> returns \<open>0\<close> or \<open>-0.0\<close> when \<open>x\<close> is \<open>+0.0\<close>,
  \<open>\<pi>\<close> for \<open>y = +0.0\<close>, \<open>x = -0.0\<close> and \<open>-\<pi>\<close> for \<open>y = -0.0\<close>,
  \<open>x = -0.0\<close>. The chain sends these angles to \<open>SW\<close>, to \<open>NW\<close> and to the last
  branch: a body at \<open>(-0.0, -0.0)\<close> in a node centred at \<open>(0.0, 0.0)\<close> ends the
  process.
\<close>

theorem zero_offset_angles:
  "quadrant_of_direc 0 = Inr SW \<and> quadrant_of_direc pi = Inr NW \<and>
   quadrant_of_direc (- pi) = Inl UnreachableQuadrant"
  using pi_gt_zero by (simp add: quadrant_of_direc_def Let_def)

subsection \<open>The traversal\<close>

lemma vector_len_nonneg: "0 \<le> vector_len v"
  by (simp add: vector_len_def)

lemma vector_len_zero_iff: "vector_len v = 0 \<longleftrightarrow> v = (0, 0)"
proof -
  have "fst v * fst v + snd v * snd v = 0 \<longleftrightarrow> fst v = 0 \<and> snd v = 0"
    by (simp add: sum_squares_eq_zero_iff)
  then show ?thesis
    by (cases v) (simp add: vector_len_def)
qed

lemma sqrt_one_plus_quot:
  fixes x y :: real
  assumes "x \<noteq> 0"
  shows "sqrt (1 + (y / x)\<^sup>2) = sqrt (x * x + y * y) / \<bar>x\<bar>"
proof -
  have "1 + (y / x)\<^sup>2 = (x * x + y * y) / (x * x)"
    using assms by (simp add: power2_eq_square field_simps)
  then have "sqrt (1 + (y / x)\<^sup>2) = sqrt (x * x + y * y) / sqrt (x * x)"
    by (simp add: real_sqrt_divide)
  then show ?thesis by simp
qed

lemma cos_arctan_quot:
  fixes x y :: real
  assumes "x \<noteq> 0"
  shows "cos (arctan (y / x)) = \<bar>x\<bar> / sqrt (x * x + y * y)"
  using assms by (simp add: cos_arctan sqrt_one_plus_quot)

lemma sin_arctan_quot:
  fixes x y :: real
  assumes "x \<noteq> 0"
  shows "sin (arctan (y / x)) = (y / x) * \<bar>x\<bar> / sqrt (x * x + y * y)"
  using assms by (simp add: sin_arctan sqrt_one_plus_quot)

text \<open>The unit vector \<open>(cos angle, sin angle)\<close> is the offset divided by its length.\<close>

lemma cos_arctan2:
  "cos (arctan2 y x) = (if x = 0 \<and> y = 0 then 1 else x / sqrt (x * x + y * y))"
proof -
  consider (px) "0 < x" | (nx1) "x < 0" "0 \<le> y" | (nx2) "x < 0" "y < 0"
    | (zp) "x = 0" "0 < y" | (zn) "x = 0" "y < 0" | (zz) "x = 0" "y = 0"
    by linarith
  then show ?thesis
  proof cases
    case px
    then show ?thesis by (simp add: arctan2_def cos_arctan_quot)
  next
    case nx1
    then show ?thesis by (simp add: arctan2_def cos_arctan_quot)
  next
    case nx2
    then show ?thesis by (simp add: arctan2_def cos_arctan_quot)
  next
    case zp
    then show ?thesis by (simp add: arctan2_def)
  next
    case zn
    then show ?thesis by (simp add: arctan2_def)
  next
    case zz
    then show ?thesis by (simp add: arctan2_def)
  qed
qed

lemma sin_arctan2:
  "sin (arctan2 y x) = (if x = 0 \<and> y = 0 then 0 else y / sqrt (x * x + y * y))"
proof -
  consider (px) "0 < x" | (nx1) "x < 0" "0 \<le> y" | (nx2) "x < 0" "y < 0"
    | (zp) "x = 0" "0 < y" | (zn) "x = 0" "y < 0" | (zz) "x = 0" "y = 0"
    by linarith
  then show ?thesis
  proof cases
    case px
    then show ?thesis by (simp add: arctan2_def sin_arctan_quot)
  next
    case nx1
    then show ?thesis by (simp add: arctan2_def sin_arctan_quot)
  next
    case nx2
    then show ?thesis by (simp add: arctan2_def sin_arctan_quot)
  next
    case zp
    then show ?thesis by (simp add: arctan2_def)
  next
    case zn
    then show ?thesis by (simp add: arctan2_def)
  next
    case zz
    then show ?thesis by (simp add: arctan2_def)
  qed
qed

lemma denom_pos:
  fixes d e :: real
  assumes "d \<noteq> 0"
  shows "0 < (d * d + e * e) powr (3 / 2)"
proof -
  have "0 < d * d" using assms by (auto simp: zero_less_mult_iff)
  moreover have "0 \<le> e * e" by simp
  ultimately have "0 < d * d + e * e" by linarith
  then show ?thesis using assms by simp
qed

text \<open>Neither division of a pass can fail, so the loop runs to an empty stack.\<close>

lemma visit_returns: "\<exists>r. visit big_g lmt ep body node stack acc = Inr r"
proof (cases "vector_len (vsub (cm node) (Body.pos body)) = 0")
  case True
  then show ?thesis by (simp add: visit_def Let_def)
next
  case False
  with denom_pos[OF False, of ep] show ?thesis
    by (simp add: visit_def Let_def fdiv_def)
qed

lemma traverse_returns: "\<exists>r. traverse big_g lmt ep body stack acc = Inr r"
proof (induction big_g lmt ep body stack acc rule: traverse.induct)
  case (1 big_g lmt ep body acc)
  show ?case by simp
next
  case (2 big_g lmt ep body node stack acc)
  obtain stack' acc' where v: "visit big_g lmt ep body node stack acc = Inr (stack', acc')"
    using visit_returns[of big_g lmt ep body node stack acc] by auto
  with "2.IH"[OF v refl] show ?case by simp
qed

text \<open>
  C4: for a popped node whose centre of mass is not the body's position, \<open>dist\<close> is
  positive; when \<open>size / dist < limit\<close> the pass adds to the accumulator the unit
  vector along \<open>node.cm - body.pos\<close> scaled by
  \<open>G * total_mass * dist / (dist\<^sup>2 + eps\<^sup>2) powr (3/2)\<close> and leaves the rest of the stack
  as it is; otherwise it pushes all the children and leaves the accumulator as it is.
\<close>

theorem visit_acceptance:
  assumes "cm node \<noteq> Body.pos body"
  shows "let size = (w node + h node) / 2;
             vec = vsub (cm node) (Body.pos body);
             dist = vector_len vec;
             mag = big_g * total_mass node * dist / (dist * dist + ep * ep) powr (3 / 2)
         in 0 < dist \<and> vector_len (smul (1 / dist) vec) = 1 \<and>
            visit big_g lmt ep body node stack acc =
              (if size / dist < lmt then Inr (stack, vadd acc (smul mag (smul (1 / dist) vec)))
               else Inr (rev (children node) @ stack, acc))"
proof -
  define vec where "vec = vsub (cm node) (Body.pos body)"
  define dist where "dist = vector_len vec"
  have "vec \<noteq> (0, 0)"
    using assms by (cases "cm node"; cases "Body.pos body") (auto simp: vec_def vsub_def)
  then have nz: "dist \<noteq> 0"
    by (simp add: dist_def vector_len_zero_iff)
  with vector_len_nonneg[of vec] have pos: "0 < dist"
    by (simp add: dist_def)
  have sq: "fst vec * fst vec + snd vec * snd vec = dist * dist"
    by (simp add: dist_def vector_len_def)
  have unit: "vector_len (smul (1 / dist) vec) = 1"
  proof -
    have "fst vec / dist * (fst vec / dist) + snd vec / dist * (snd vec / dist) =
          (fst vec * fst vec + snd vec * snd vec) / (dist * dist)"
      by (simp add: add_divide_distrib)
    also have "\<dots> = 1" using nz by (simp add: sq)
    finally show ?thesis by (simp add: vector_len_def smul_def)
  qed
  have dir: "(cos (arctan2 (snd vec) (fst vec)), sin (arctan2 (snd vec) (fst vec))) =
             smul (1 / dist) vec"
    using \<open>vec \<noteq> (0, 0)\<close>
    by (cases vec) (auto simp: cos_arctan2 sin_arctan2 smul_def dist_def vector_len_def)
  have den: "(dist * dist + ep * ep) powr (3 / 2) \<noteq> 0"
    using denom_pos[OF nz, of ep] by simp
  show ?thesis
    unfolding Let_def vec_def[symmetric] dist_def[symmetric]
    using pos unit nz den
    by (simp add: visit_def Let_def fdiv_def vec_def[symmetric] dist_def[symmetric] dir)
qed

theorem visit_acceptance_witness:
  "cm (Node (1, 1) 1 1 [ex_ne] (1, 1) 1 []) \<noteq> Body.pos ex_nw \<and>
   visit 1 5 0 ex_nw (Node (1, 1) 1 1 [ex_ne] (1, 1) 1 []) [] zeros = Inr ([], (1 / 4, 0)) \<and>
   visit 1 (1 / 4) 0 ex_nw (Node (1, 1) 1 1 [ex_ne] (1, 1) 1 []) [ex_tree] zeros =
     Inr ([ex_tree], zeros)"
proof -
  have ne: "cm (Node (1, 1) 1 1 [ex_ne] (1, 1) 1 []) \<noteq> Body.pos ex_nw"
    by (simp add: ex_nw_def)
  have len: "vector_len (2, 0) = 2"
    by (simp add: vector_len_def)
  have pw: "(4::real) powr (3 / 2) = 8"
  proof -
    have "(4::real) powr (3 / 2) = (2 powr 2) powr (3 / 2)" by simp
    also have "\<dots> = 2 powr 3" by (simp only: powr_powr) simp
    finally show ?thesis by simp
  qed
  from visit_acceptance[OF ne, of 1 0 5 "[]" zeros] visit_acceptance[OF ne, of 1 0 "1 / 4" "[ex_tree]" zeros]
  show ?thesis
    using ne by (simp add: Let_def len pw ex_nw_def vsub_def smul_def vadd_def zeros_def)
qed

text \<open>
  A popped node whose centre of mass is the body's position has \<open>dist = 0\<close>: the pass
  leaves the accumulator and the rest of the stack as they are, so the loop goes on as
  if the node had not been there; and no pass ever divides by a zero \<open>dist\<close>.
\<close>

lemma visit_skips_coincident:
  assumes "cm node = Body.pos body"
  shows "vector_len (vsub (cm node) (Body.pos body)) = 0 \<and>
         visit big_g lmt ep body node stack acc = Inr (stack, acc) \<and>
         traverse big_g lmt ep body (node # stack) acc = traverse big_g lmt ep body stack acc \<and>
         visit big_g lmt ep body other stack acc \<noteq> Inl ZeroDivisionError \<and>
         traverse big_g lmt ep body stack acc \<noteq> Inl ZeroDivisionError"
proof -
  have d0: "vector_len (vsub (cm node) (Body.pos body)) = 0"
    using assms by (simp add: vsub_def vector_len_def)
  then have v: "visit big_g lmt ep body node stack acc = Inr (stack, acc)"
    by (simp add: visit_def Let_def)
  from visit_returns[of big_g lmt ep body other stack acc]
  have "visit big_g lmt ep body other stack acc \<noteq> Inl ZeroDivisionError" by auto
  moreover from traverse_returns[of big_g lmt ep body stack acc]
  have "traverse big_g lmt ep body stack acc \<noteq> Inl ZeroDivisionError" by auto
  ultimately show ?thesis using d0 v by simp
qed

lemma vector_len_on_x_axis: "vector_len (a, 0) = \<bar>a\<bar>"
  by (simp add: vector_len_def)

subsection \<open>Construction\<close>

lemma foldl_plus: "foldl (+) a xs = a + sum_list xs" for a :: real
  by (induction xs arbitrary: a) simp_all

lemma py_sum_eq: "py_sum xs = sum_list xs"
  by (simp add: py_sum_def foldl_plus)

lemma foldl_vadd:
  "foldl vadd a vs = (fst a + sum_list (map fst vs), snd a + sum_list (map snd vs))"
  by (induction vs arbitrary: a) (simp_all add: vadd_def add.assoc)

lemma py_vsum_eq: "py_vsum vs = (sum_list (map fst vs), sum_list (map snd vs))"
  by (simp add: py_vsum_def foldl_vadd zeros_def)

lemma calc_cm_eq:
  assumes "calc_cm (sum_list (map Body.m bs)) bs = Inr c"
  shows "sum_list (map Body.m bs) \<noteq> 0 \<and> c = mass_weighted_average bs"
  using assms
  by (auto simp: calc_cm_def fdiv_def Let_def py_vsum_eq smul_def mass_weighted_average_def
        comp_def split: if_splits)

lemma collect_Inr: "collect rs = Inr xs \<Longrightarrow> rs = map Inr xs"
  by (induction rs arbitrary: xs) (auto split: sum.splits)

lemma create_node_eq:
  "create_node mk p wd ht quad qbs = mk (child_pos p wd ht quad) (wd / 2) (ht / 2) qbs"
  by (cases quad) (simp_all add: create_node_def child_pos_def Let_def)

lemma quads_append_keys: "map fst (quads_append bq quad b) = map fst bq"
  by (induction bq) (auto simp: quads_append_def)

lemma split_loop_keys: "split_loop q bs bq = Inr bq' \<Longrightarrow> map fst bq' = map fst bq"
  by (induction bs arbitrary: bq) (auto simp: quads_append_keys split: sum.splits)

lemma split_bodies_keys: "split_bodies q bs = Inr bq \<Longrightarrow> map fst bq = [NW, NE, SW, SE]"
  by (auto simp: split_bodies_def dest: split_loop_keys)

text \<open>The three ways a construction returns a node.\<close>

lemma Node_init_cases:
  assumes "Node_init depth p wd ht bs = Inr nd"
  obtains (empty) "bs = []" "nd = Node p wd ht [] zeros 0 []"
  | (leaf) b where "bs = [b]" "nd = Node p wd ht [b] (Body.pos b) (Body.m b) []"
  | (inner) d bq c cs where "depth = Suc d" "2 \<le> length bs" "split_bodies p bs = Inr bq"
      "calc_cm (sum_list (map Body.m bs)) bs = Inr c"
      "map (\<lambda>(quad, qbs). create_node (Node_init d) p wd ht quad qbs) bq = map Inr cs"
      "nd = Node p wd ht bs c (sum_list (map Body.m bs)) cs"
proof (cases depth)
  case 0
  with assms show ?thesis by simp
next
  case (Suc d)
  show ?thesis
  proof (cases bs)
    case Nil
    with assms Suc empty show ?thesis by (simp add: py_sum_eq)
  next
    case (Cons b rest)
    show ?thesis
    proof (cases rest)
      case Nil
      with assms Suc Cons leaf show ?thesis by (simp add: py_sum_eq)
    next
      case (Cons b' rest')
      with \<open>bs = b # rest\<close> have len: "2 \<le> length bs" "bs \<noteq> []" "length bs \<noteq> 1"
        by simp_all
      from assms Suc len obtain bq c cs where
        "split_bodies p bs = Inr bq" "calc_cm (sum_list (map Body.m bs)) bs = Inr c"
        "collect (map (\<lambda>(quad, qbs). create_node (Node_init d) p wd ht quad qbs) bq) = Inr cs"
        "nd = Node p wd ht bs c (sum_list (map Body.m bs)) cs"
        by (auto simp: py_sum_eq Let_def split: sum.splits)
      with inner[OF Suc len(1)] collect_Inr show ?thesis by blast
    qed
  qed
qed

lemma Node_init_fields:
  assumes "Node_init depth p wd ht bs = Inr nd"
  shows "Node.pos nd = p \<and> w nd = wd \<and> h nd = ht \<and> Node.bodies nd = bs \<and>
         total_mass nd = sum_list (map Body.m bs)"
  using assms by (rule Node_init_cases) simp_all

lemma Node_init_cm:
  assumes "Node_init depth p wd ht bs = Inr nd" and "2 \<le> length bs"
  shows "sum_list (map Body.m bs) \<noteq> 0 \<and> cm nd = mass_weighted_average bs"
  using assms(1)
proof (cases rule: Node_init_cases)
  case empty
  with assms(2) show ?thesis by simp
next
  case (leaf b)
  with assms(2) show ?thesis by simp
next
  case (inner d bq c cs)
  from calc_cm_eq[OF inner(4)] inner(6) show ?thesis by simp
qed

lemma Node_init_zero_mass:
  assumes "Node_init depth p wd ht bs = Inr nd" and "total_mass nd = 0"
  shows "children nd = []"
  using assms(1)
proof (cases rule: Node_init_cases)
  case empty
  then show ?thesis by simp
next
  case (leaf b)
  then show ?thesis by simp
next
  case (inner d bq c cs)
  from calc_cm_eq[OF inner(4)] inner(6) assms(2) show ?thesis by simp
qed

lemma child_constructed:
  assumes "map (\<lambda>(quad, qbs). create_node (Node_init d) p wd ht quad qbs) bq = map Inr cs"
    and "c \<in> set cs"
  shows "\<exists>p' qbs. Node_init d p' (wd / 2) (ht / 2) qbs = Inr c"
proof -
  from assms(2) obtain i where i: "i < length cs" "cs ! i = c"
    by (auto simp: in_set_conv_nth)
  from assms(1) have len: "length bq = length cs"
    by (metis length_map)
  obtain quad qbs where q: "bq ! i = (quad, qbs)" by (cases "bq ! i")
  from assms(1) have
    "map (\<lambda>(quad, qbs). create_node (Node_init d) p wd ht quad qbs) bq ! i = map Inr cs ! i"
    by simp
  with i len q have "create_node (Node_init d) p wd ht quad qbs = Inr c" by simp
  then show ?thesis unfolding create_node_eq by blast
qed

text \<open>
  Every node of a constructed tree is itself the result of a construction, from the
  list of bodies it stores: what holds of the results of \<open>Node_init\<close> holds of every
  node the program ever builds.
\<close>

lemma subnodes_constructed:
  assumes "Node_init depth p wd ht bs = Inr nd" and "n \<in> set (subnodes nd)"
  shows "\<exists>d p' wd' ht'. Node_init d p' wd' ht' (Node.bodies n) = Inr n"
  using assms
proof (induction depth arbitrary: p wd ht bs nd)
  case 0
  then show ?case by simp
next
  case (Suc d0)
  from Suc.prems(1) show ?case
  proof (cases rule: Node_init_cases)
    case empty
    with Suc.prems(2) have "n = nd" by simp
    with Suc.prems(1) Node_init_fields show ?thesis by blast
  next
    case (leaf b)
    with Suc.prems(2) have "n = nd" by simp
    with Suc.prems(1) Node_init_fields show ?thesis by blast
  next
    case (inner d bq c cs)
    from Suc.prems(2) inner(6) consider "n = nd" | k where "k \<in> set cs" "n \<in> set (subnodes k)"
      by auto
    then show ?thesis
    proof cases
      case 1
      with Suc.prems(1) Node_init_fields show ?thesis by blast
    next
      case 2
      from inner(1) have "d = d0" by simp
      with child_constructed[OF inner(5) 2(1)] obtain p' qbs where
        "Node_init d0 p' (wd / 2) (ht / 2) qbs = Inr k" by blast
      from Suc.IH[OF this 2(2)] show ?thesis .
    qed
  qed
qed

text \<open>The lists of the four quadrants are the bodies the classification sends there.\<close>

lemma split_loop_filter:
  "split_loop q bs bq0 = Inr bq \<Longrightarrow>
   bq = map (\<lambda>(k, l). (k, l @ filter (\<lambda>b. find_quadrant (Body.pos b) q = Inr k) bs)) bq0"
proof (induction bs arbitrary: bq0)
  case Nil
  then show ?case by simp
next
  case (Cons b bs)
  from Cons.prems obtain quad where
    fq: "find_quadrant (Body.pos b) q = Inr quad" and
    rest: "split_loop q bs (quads_append bq0 quad b) = Inr bq"
    by (auto split: sum.splits)
  from Cons.IH[OF rest] fq show ?case
    by (auto simp: quads_append_def)
qed

lemma split_bodies_filter:
  assumes "split_bodies q bs = Inr bq"
  shows "bq = map (\<lambda>k. (k, filter (\<lambda>b. find_quadrant (Body.pos b) q = Inr k) bs)) [NW, NE, SW, SE]"
  using split_loop_filter[OF assms[unfolded split_bodies_def]] by simp

lemma find_quadrant_returns: "\<exists>k. find_quadrant b q = Inr k"
  by (simp add: find_quadrant_signs Let_def)

lemma children_are_quadrants:
  assumes "Node_init (Suc d) p wd ht bs = Inr nd" and "2 \<le> length bs"
  shows "map (\<lambda>k. Node_init d (child_pos p wd ht k) (wd / 2) (ht / 2)
                (filter (\<lambda>b. find_quadrant (Body.pos b) p = Inr k) bs)) [NW, NE, SW, SE] =
         map Inr (children nd)"
  using assms(1)
proof (cases rule: Node_init_cases)
  case empty
  with assms(2) show ?thesis by simp
next
  case (leaf b)
  with assms(2) show ?thesis by simp
next
  case (inner d' bq c cs)
  from inner(1) have d: "d' = d" by simp
  from inner(5) inner(6) show ?thesis
    unfolding split_bodies_filter[OF inner(3)] d by (simp add: create_node_eq comp_def)
qed

lemma distinct_by_classes:
  assumes "\<forall>y \<in> set ys. \<exists>k. Q k y" and "\<forall>k. distinct (filter (Q k) ys)"
  shows "distinct ys"
  using assms
proof (induction ys)
  case Nil
  show ?case by simp
next
  case (Cons y ys)
  from Cons.prems(2) have "\<forall>k. distinct (filter (Q k) ys)"
    by (metis distinct.simps(2) filter.simps(2))
  with Cons have d: "distinct ys" by simp
  from Cons.prems(1) obtain k where k: "Q k y" by auto
  from Cons.prems(2) have "distinct (filter (Q k) (y # ys))" by blast
  with k have "y \<notin> set (filter (Q k) ys)" by simp
  with k have "y \<notin> set ys" by simp
  with d show ?case by simp
qed

text \<open>
  Two bodies at one position are never separated, so a construction that returns was
  given bodies at pairwise different positions: \<open>relink\<close> finds the one body of a
  leaf among the bodies of the root without ambiguity.
\<close>

lemma built_positions_distinct:
  "Node_init depth p wd ht bs = Inr nd \<Longrightarrow> distinct (map Body.pos bs)"
proof (induction depth arbitrary: p wd ht bs nd)
  case 0
  then show ?case by simp
next
  case (Suc d)
  show ?case
  proof (cases "2 \<le> length bs")
    case False
    then have "bs = [] \<or> (\<exists>b. bs = [b])"
      by (cases bs; cases "tl bs") auto
    then show ?thesis by auto
  next
    case True
    have "distinct (filter (\<lambda>v. find_quadrant v p = Inr k) (map Body.pos bs))" for k
    proof -
      let ?f = "\<lambda>k. Node_init d (child_pos p wd ht k) (wd / 2) (ht / 2)
                 (filter (\<lambda>b. find_quadrant (Body.pos b) p = Inr k) bs)"
      have "?f k \<in> set (map ?f [NW, NE, SW, SE])" by (cases k) simp_all
      then have "?f k \<in> set (map Inr (children nd))"
        by (simp only: children_are_quadrants[OF Suc.prems True])
      then have "\<exists>c. ?f k = Inr c" by auto
      then obtain c where "Node_init d (child_pos p wd ht k) (wd / 2) (ht / 2)
                 (filter (\<lambda>b. find_quadrant (Body.pos b) p = Inr k) bs) = Inr c" by blast
      from Suc.IH[OF this] show ?thesis by (simp add: filter_map comp_def)
    qed
    moreover have "\<forall>v \<in> set (map Body.pos bs). \<exists>k. find_quadrant v p = Inr k"
      using find_quadrant_returns by blast
    ultimately show ?thesis
      by (intro distinct_by_classes[where Q = "\<lambda>k v. find_quadrant v p = Inr k"]) auto
  qed
qed


lemma map_of_zip_same: "x \<in> set xs \<Longrightarrow> map_of (zip xs xs) x = Some x"
  by (induction xs) auto

text \<open>
  While no body has moved, the tree read through the shared arrays is the tree built.
\<close>

lemma relink_same:
  "Node_init depth p wd ht bs = Inr nd \<Longrightarrow> set bs \<subseteq> set built \<Longrightarrow> relink built built nd = nd"
proof (induction depth arbitrary: p wd ht bs nd)
  case 0
  then show ?case by simp
next
  case (Suc d)
  from Suc.prems(1) show ?case
  proof (cases rule: Node_init_cases)
    case empty
    then show ?thesis by simp
  next
    case (leaf b)
    with Suc.prems(2) show ?thesis by (simp add: map_of_zip_same)
  next
    case (inner d' bq c cs)
    have "relink built built k = k" if "k \<in> set cs" for k
    proof -
      from that inner(6) have "Inr k \<in> set (map Inr (children nd))" by simp
      then have "Inr k \<in> set (map (\<lambda>q. Node_init d (child_pos p wd ht q) (wd / 2) (ht / 2)
                 (filter (\<lambda>b. find_quadrant (Body.pos b) p = Inr q) bs)) [NW, NE, SW, SE])"
        by (simp only: children_are_quadrants[OF Suc.prems(1) inner(2)])
      then obtain q where "Node_init d (child_pos p wd ht q) (wd / 2) (ht / 2)
                 (filter (\<lambda>b. find_quadrant (Body.pos b) p = Inr q) bs) = Inr k"
        by auto
      moreover have "set (filter (\<lambda>b. find_quadrant (Body.pos b) p = Inr q) bs) \<subseteq> set built"
        using Suc.prems(2) by auto
      ultimately show ?thesis by (rule Suc.IH)
    qed
    then have "map (relink built built) cs = cs"
      by (simp add: map_idI)
    with inner(2,6) show ?thesis
      by (cases bs; cases "tl bs") auto
  qed
qed

text \<open>The loop over \<^verbatim>\<open>b_quads.keys()\<close> builds a child for each of the four keys.\<close>

lemma inner_node_four_children:
  assumes "Node_init depth p wd ht bs = Inr nd" and "2 \<le> length bs"
  shows "length (children nd) = 4"
  using assms(1)
proof (cases rule: Node_init_cases)
  case empty
  with assms(2) show ?thesis by simp
next
  case (leaf b)
  with assms(2) show ?thesis by simp
next
  case (inner d bq c cs)
  from inner(5) have "length cs = length bq" by (metis length_map)
  also have "length bq = 4"
  proof -
    have "length (map fst bq) = length [NW, NE, SW, SE]"
      by (simp only: split_bodies_keys[OF inner(3)])
    then show ?thesis by simp
  qed
  finally show ?thesis using inner(6) by simp
qed

lemma ex_tree_built: "Node_init 2 (0, 0) 2 2 [ex_ne, ex_nw] = Inr ex_tree"
  by (simp add: numeral_2_eq_2 ex_tree_def ex_ne_def ex_nw_def py_sum_def split_bodies_def
      find_quadrant_signs quads_append_def calc_cm_def fdiv_def py_vsum_def vadd_def smul_def
      zeros_def create_node_def Let_def)

text \<open>
  C2: the claim is that a node built from two or more bodies gets a child only for the
  quadrants that hold a body. The loop of \<^verbatim>\<open>_create_child_nodes\<close> runs over all four
  keys: the node built from one body in NE and one in NW has four children, and those
  of SW and SE are built from the empty list.
\<close>

theorem empty_quadrants_get_children:
  "(case Node_init 2 (0, 0) 2 2 [ex_ne, ex_nw] of
      Inl e \<Rightarrow> []
    | Inr nd \<Rightarrow> map Node.bodies (children nd)) = [[ex_nw], [ex_ne], [], []]"
  by (simp add: ex_tree_built) (simp add: ex_tree_def)

text \<open>
  C5: in every node of a constructed tree, \<open>total_mass\<close> is the sum of the masses of
  the bodies the node was built from, and when these are two or more their masses do
  not sum to zero and \<open>cm\<close> is the mass-weighted average of their positions.
\<close>

theorem Node_mass_and_cm:
  assumes "Node_init depth p wd ht bs = Inr nd" and "n \<in> set (subnodes nd)"
  shows "total_mass n = (\<Sum>b\<leftarrow>Node.bodies n. Body.m b) \<and>
         (2 \<le> length (Node.bodies n) \<longrightarrow>
            (\<Sum>b\<leftarrow>Node.bodies n. Body.m b) \<noteq> 0 \<and> cm n = mass_weighted_average (Node.bodies n))"
proof -
  from subnodes_constructed[OF assms] obtain d p' wd' ht' where
    built: "Node_init d p' wd' ht' (Node.bodies n) = Inr n" by blast
  from Node_init_fields[OF built] Node_init_cm[OF built] show ?thesis by simp
qed

theorem Node_mass_and_cm_witness:
  "Node_init 2 (0, 0) 2 2 [ex_ne, ex_nw] = Inr ex_tree \<and> ex_tree \<in> set (subnodes ex_tree) \<and>
   Node.bodies ex_tree = [ex_ne, ex_nw] \<and> total_mass ex_tree = 4 \<and>
   cm ex_tree = mass_weighted_average [ex_ne, ex_nw] \<and> cm ex_tree = (- (1 / 2), 1)"
proof -
  have mem: "ex_tree \<in> set (subnodes ex_tree)" by (simp add: ex_tree_def)
  have bs: "Node.bodies ex_tree = [ex_ne, ex_nw]" by (simp add: ex_tree_def)
  from Node_mass_and_cm[OF ex_tree_built mem] bs
  have "cm ex_tree = mass_weighted_average [ex_ne, ex_nw]" by simp
  with ex_tree_built mem bs show ?thesis by (simp add: ex_tree_def)
qed

text \<open>
  C6: a node of a constructed tree that was built from exactly one body has no
  children, and its \<open>cm\<close> is that body's position.
\<close>

theorem single_body_leaf:
  assumes "Node_init depth p wd ht bs = Inr nd" and "n \<in> set (subnodes nd)"
    and "Node.bodies n = [b]"
  shows "children n = [] \<and> cm n = Body.pos b"
proof -
  from subnodes_constructed[OF assms(1,2)] assms(3) obtain d p' wd' ht' where
    "Node_init d p' wd' ht' [b] = Inr n" by auto
  then show ?thesis
    by (cases rule: Node_init_cases) simp_all
qed

theorem single_body_leaf_witness:
  "Node_init 1 (3, 4) 5 6 [ex_ne] = Inr (Node (3, 4) 5 6 [ex_ne] (1, 1) 1 []) \<and>
   Node (3, 4) 5 6 [ex_ne] (1, 1) 1 [] \<in> set (subnodes (Node (3, 4) 5 6 [ex_ne] (1, 1) 1 [])) \<and>
   children (Node (3, 4) 5 6 [ex_ne] (1, 1) 1 []) = [] \<and>
   cm (Node (3, 4) 5 6 [ex_ne] (1, 1) 1 []) = Body.pos ex_ne"
proof -
  have built: "Node_init 1 (3, 4) 5 6 [ex_ne] = Inr (Node (3, 4) 5 6 [ex_ne] (1, 1) 1 [])"
    by (simp add: ex_ne_def py_sum_def)
  have mem: "Node (3, 4) 5 6 [ex_ne] (1, 1) 1 [] \<in> set (subnodes (Node (3, 4) 5 6 [ex_ne] (1, 1) 1 []))"
    by simp
  from single_body_leaf[OF built mem, of ex_ne] built mem show ?thesis by simp
qed

text \<open>
  C10: a node of a constructed tree whose \<open>total_mass\<close> is zero (such as the children
  built for empty quadrants) has no children; the magnitude computed for it is zero, and
  a pass over it leaves the accumulator and the rest of the stack as they are.
\<close>

theorem zero_mass_node_inert:
  assumes "Node_init depth p wd ht bs = Inr nd" and "n \<in> set (subnodes nd)"
    and "total_mass n = 0"
  shows "children n = [] \<and>
         big_g * total_mass n * d / ((d * d + ep * ep) powr (3 / 2)) = 0 \<and>
         visit big_g lmt ep body n stack acc = Inr (stack, acc) \<and>
         traverse big_g lmt ep body (n # stack) acc = traverse big_g lmt ep body stack acc"
proof -
  from subnodes_constructed[OF assms(1,2)] obtain d' p' wd' ht' where
    built: "Node_init d' p' wd' ht' (Node.bodies n) = Inr n" by blast
  from Node_init_zero_mass[OF built assms(3)] have ch: "children n = []" .
  have v: "visit big_g lmt ep body n stack acc = Inr (stack, acc)"
  proof (cases "vector_len (vsub (cm n) (Body.pos body)) = 0")
    case True
    then show ?thesis by (simp add: visit_def Let_def)
  next
    case False
    with denom_pos[OF False, of ep] show ?thesis
      by (simp add: visit_def Let_def fdiv_def assms(3) ch vadd_def smul_def)
  qed
  with ch assms(3) show ?thesis by simp
qed

theorem zero_mass_node_inert_witness:
  "Node_init 2 (0, 0) 2 2 [ex_ne, ex_nw] = Inr ex_tree \<and>
   Node (- 1, - 1) 1 1 [] (0, 0) 0 [] \<in> set (subnodes ex_tree) \<and>
   total_mass (Node (- 1, - 1) 1 1 [] (0, 0) 0 []) = 0 \<and>
   visit 1 5 1000 ex_ne (Node (- 1, - 1) 1 1 [] (0, 0) 0 []) [ex_tree] (3, 4) =
     Inr ([ex_tree], (3, 4))"
proof -
  have mem: "Node (- 1, - 1) 1 1 [] (0, 0) 0 [] \<in> set (subnodes ex_tree)"
    by (simp add: ex_tree_def)
  have z: "total_mass (Node (- 1, - 1) 1 1 [] (0, 0) 0 []) = 0" by simp
  from zero_mass_node_inert[OF ex_tree_built mem z, of 1 0 1000 5 ex_ne "[ex_tree]" "(3, 4)"]
    ex_tree_built mem show ?thesis by simp
qed

subsection \<open>The tree of a \<^verbatim>\<open>QuadTree\<close>\<close>









lemma tree_seen_unmoved:
  assumes "QuadTree_init depth bs dt0 limit0 eps0 = Inr qt"
  shows "tree_seen in_place (root_node qt) (QuadTree.bodies qt) = root_node qt"
proof -
  from assms obtain dst where
    built: "Node_init depth (0, 0) dst dst bs = Inr (root_node qt)" and bs: "QuadTree.bodies qt = bs"
    by (auto simp: QuadTree_init_def split: sum.splits)
  from Node_init_fields[OF built] have "Node.bodies (root_node qt) = bs" by simp
  with relink_same[OF built, of bs] bs show ?thesis
    by (simp add: tree_seen_def)
qed








text \<open>
  After that step the body's own leaf, still at \<open>(1, 0)\<close> when the new position
  was bound as a new array, is accepted and pulls the body; when the position was
  written in place the leaf is at the body's position and is skipped.
\<close>

lemma own_leaf_after_a_step:
  "traverse 1 5 0 ex_moved [tree_seen False (root_node ex_qt) [ex_moved]] zeros = Inr (- 1, 0) \<and>
   traverse 1 5 0 ex_moved [tree_seen True (root_node ex_qt) [ex_moved]] zeros = Inr zeros"
proof -
  have stale: "visit 1 5 0 ex_moved (Node (0, 0) 1 1 [ex_body] (1, 0) 1 []) [] zeros =
               Inr ([], (- 1, 0))"
    by (simp add: visit_def Let_def ex_moved_def vsub_def vector_len_on_x_axis fdiv_def
        arctan2_def vadd_def smul_def zeros_def)
  have fresh: "visit 1 5 0 ex_moved (Node (0, 0) 1 1 [ex_body] (2, 0) 1 []) [] zeros =
               Inr ([], zeros)"
    by (simp add: visit_def Let_def ex_moved_def vsub_def vector_len_on_x_axis)
  from stale fresh show ?thesis
    by (simp add: tree_seen_def ex_qt_def ex_moved_def)
qed

lemma ex_pair_built:
  "QuadTree_init 2 [ex_body, ex_west] dt0 5 ep =
   Inr \<lparr>dt = dt0, limit = 5, eps = ep, bodies = [ex_body, ex_west], root_node = ex_pair_root\<rparr>"
  by (simp add: QuadTree_init_def py_max_def vector_len_on_x_axis numeral_2_eq_2 ex_pair_root_def
      ex_body_def ex_west_def py_sum_def split_bodies_def find_quadrant_signs quads_append_def
      calc_cm_def fdiv_def py_vsum_def vadd_def smul_def zeros_def create_node_def Let_def)

text \<open>
  C7: the claim is that a body's own position never contributes to its own computed
  acceleration, which is what the comment on lines 169 and 170 intends. The test
  \<open>dist = 0\<close> is the only guard, and it does not keep the body out of the aggregates:
  in the very first step of a \<^verbatim>\<open>QuadTree\<close> of the bodies \<open>ex_body\<close> at \<open>(1, 0)\<close> and
  \<open>ex_west\<close> at \<open>(-1, 0)\<close>, with the default \<open>limit = 5\<close>, the traversal for
  \<open>ex_body\<close> accepts the root at once (\<open>size / dist = 1 / (3/2)\<close>). Its acceleration
  is the pull of the root's aggregate, of mass \<open>m ex_body + m ex_west\<close> at the centre
  of mass of both bodies, where leaving the body out gives the pull of \<open>ex_west\<close>
  alone, from distance 2.
\<close>

theorem accepted_root_counts_the_body:
  "(case QuadTree_init 2 [ex_body, ex_west] dt0 5 ep of
      Inl e \<Rightarrow> Inl e
    | Inr qt \<Rightarrow>
        traverse big_g (limit qt) (eps qt) ex_body
          [tree_seen in_place (root_node qt) (QuadTree.bodies qt)] zeros) =
   Inr (- (big_g * (Body.m ex_body + Body.m ex_west) * (3 / 2) /
           (3 / 2 * (3 / 2) + ep * ep) powr (3 / 2)), 0) \<and>
   visit big_g 5 ep ex_body (Node (- (1 / 2), 1 / 2) (1 / 2) (1 / 2) [ex_west] (- 1, 0) 3 []) []
     zeros =
   Inr ([], (- (big_g * Body.m ex_west * 2 / (2 * 2 + ep * ep) powr (3 / 2)), 0))"
proof -
  let ?qt = "\<lparr>dt = dt0, limit = 5, eps = ep, bodies = [ex_body, ex_west], root_node = ex_pair_root\<rparr>"
  have seen: "tree_seen in_place (root_node ?qt) (QuadTree.bodies ?qt) = ex_pair_root"
    using tree_seen_unmoved[OF ex_pair_built] by simp
  have den: "(3 / 2 * (3 / 2) + ep * ep) powr (3 / 2) \<noteq> 0"
    using denom_pos[of "3 / 2" ep] by simp
  have v: "visit big_g 5 ep ex_body ex_pair_root [] zeros =
        Inr ([], (- (big_g * 4 * (3 / 2) / (3 / 2 * (3 / 2) + ep * ep) powr (3 / 2)), 0))"
    using den
    by (simp add: visit_def Let_def ex_pair_root_def ex_body_def vsub_def vector_len_on_x_axis
        fdiv_def arctan2_def vadd_def smul_def zeros_def)
  then have t: "traverse big_g 5 ep ex_body [ex_pair_root] zeros =
        Inr (- (big_g * 4 * (3 / 2) / (3 / 2 * (3 / 2) + ep * ep) powr (3 / 2)), 0)"
    by simp
  have mass: "Body.m ex_body + Body.m ex_west = 4"
    by (simp add: ex_body_def ex_west_def)
  have den2: "(2 * 2 + ep * ep) powr (3 / 2) \<noteq> 0"
    using denom_pos[of 2 ep] by simp
  have other: "visit big_g 5 ep ex_body
        (Node (- (1 / 2), 1 / 2) (1 / 2) (1 / 2) [ex_west] (- 1, 0) 3 []) [] zeros =
      Inr ([], (- (big_g * Body.m ex_west * 2 / (2 * 2 + ep * ep) powr (3 / 2)), 0))"
    using den2
    by (simp add: visit_def Let_def ex_body_def ex_west_def vsub_def vector_len_on_x_axis
        fdiv_def arctan2_def vadd_def smul_def zeros_def)
  from seen t other show ?thesis
    unfolding ex_pair_built mass by simp
qed

end
